theory Spec2Isabelle
  imports Main "HOL-Library.Word"
begin

unbundle bit_operations_syntax

section \<open>Python and NumPy values\<close>

text \<open>
  The module \<^verbatim>\<open>hyperloglog/compression.py\<close> works on Python integers (unbounded,
  modelled as \<open>int\<close>), on \<^verbatim>\<open>bytes\<close> (a list of 8-bit words) and on NumPy arrays.
  Exceptions are values: the exception class with the message of the raise site. The
  numbers that an f-string interpolates into a message are not rendered, the placeholder
  is kept as the source writes it; the messages of the interpreter and of NumPy are
  given without the quotation marks around names.
\<close>

type_synonym byte = "8 word"

datatype error =
    ValueError string
  | OverflowError string
  | AttributeError string
  | ZeroDivisionError string

definition bindE :: "error + 'a \<Rightarrow> ('a \<Rightarrow> error + 'b) \<Rightarrow> error + 'b" where
  "bindE m f = (case m of Inl e \<Rightarrow> Inl e | Inr v \<Rightarrow> f v)"

text \<open>
  A \<^verbatim>\<open>for\<close> loop that fills a result sequence: the body runs on each element in
  order, the first exception ends the loop and no partial result is returned.
\<close>

fun mapE :: "('a \<Rightarrow> error + 'b) \<Rightarrow> 'a list \<Rightarrow> error + 'b list" where
  "mapE f [] = Inr []"
| "mapE f (x # xs) = bindE (f x) (\<lambda>y. bindE (mapE f xs) (\<lambda>ys. Inr (y # ys)))"

text \<open>
  A scalar is a Python \<^verbatim>\<open>int\<close> or a NumPy integer scalar. Iterating over an
  integer \<^verbatim>\<open>ndarray\<close> yields NumPy scalars (for the sparse codec: \<^verbatim>\<open>numpy.int32\<close>),
  and no NumPy integer type is a subclass of \<^verbatim>\<open>int\<close> in Python 3, so
  \<^verbatim>\<open>isinstance(val, int)\<close> is false for them.
\<close>

datatype scalar = PyInt int | NpInt int

fun isinstance_int :: "scalar \<Rightarrow> bool" where
  "isinstance_int (PyInt x) = True"
| "isinstance_int (NpInt x) = False"

fun scalar_val :: "scalar \<Rightarrow> int" where
  "scalar_val (PyInt x) = x"
| "scalar_val (NpInt x) = x"

definition in_int32 :: "int \<Rightarrow> bool" where
  "in_int32 x = (- (2 ^ 31) \<le> x \<and> x < 2 ^ 31)"

definition wrap32 :: "int \<Rightarrow> int" where
  "wrap32 x = (x + 2 ^ 31) mod 2 ^ 32 - 2 ^ 31"

text \<open>
  \<^verbatim>\<open>x << n\<close>. On a Python int a negative count raises. On a \<^verbatim>\<open>numpy.int32\<close> the
  Python count is converted to \<^verbatim>\<open>int32\<close> (NumPy 2 raises when it does not fit), the
  result wraps to 32 bits, and a count outside \<open>[0, 32)\<close> gives 0.
\<close>

fun s_lshift :: "scalar \<Rightarrow> int \<Rightarrow> error + scalar" where
  "s_lshift (PyInt x) n =
     (if n < 0 then Inl (ValueError ''negative shift count'')
      else Inr (PyInt (push_bit (nat n) x)))"
| "s_lshift (NpInt a) n =
     (if \<not> in_int32 n then Inl (OverflowError ''Python integer out of bounds for int32'')
      else if 0 \<le> n \<and> n < 32 then Inr (NpInt (wrap32 (push_bit (nat n) a)))
      else Inr (NpInt 0))"

text \<open>\<^verbatim>\<open>x & k\<close> with a Python int \<open>k\<close> on the right.\<close>

fun s_and :: "scalar \<Rightarrow> int \<Rightarrow> error + scalar" where
  "s_and (PyInt x) k = Inr (PyInt (x AND k))"
| "s_and (NpInt a) k =
     (if \<not> in_int32 k then Inl (OverflowError ''Python integer out of bounds for int32'')
      else Inr (NpInt (a AND k)))"

text \<open>
  \<^verbatim>\<open>x | y\<close>. A Python int combined with a NumPy scalar gives a NumPy scalar: the
  accumulator \<^verbatim>\<open>bitstream\<close>, which starts as the Python int 0, becomes a NumPy scalar
  as soon as a NumPy scalar is OR-ed into it.
\<close>

fun s_or :: "scalar \<Rightarrow> scalar \<Rightarrow> error + scalar" where
  "s_or (PyInt x) (PyInt y) = Inr (PyInt (x OR y))"
| "s_or (NpInt a) (NpInt c) = Inr (NpInt (a OR c))"
| "s_or (PyInt x) (NpInt a) =
     (if \<not> in_int32 x then Inl (OverflowError ''Python integer out of bounds for int32'')
      else Inr (NpInt (x OR a)))"
| "s_or (NpInt a) (PyInt x) =
     (if \<not> in_int32 x then Inl (OverflowError ''Python integer out of bounds for int32'')
      else Inr (NpInt (a OR x)))"

text \<open>\<^verbatim>\<open>1 << n\<close> on Python ints.\<close>

definition py_lshift :: "int \<Rightarrow> int \<Rightarrow> error + int" where
  "py_lshift x n =
     (if n < 0 then Inl (ValueError ''negative shift count'') else Inr (push_bit (nat n) x))"

subsection \<open>Bytes\<close>

text \<open>\<^verbatim>\<open>int.from_bytes(data, byteorder='little')\<close>\<close>

fun from_bytes :: "byte list \<Rightarrow> int" where
  "from_bytes [] = 0"
| "from_bytes (c # cs) = uint c + 256 * from_bytes cs"

fun to_bytes_le :: "nat \<Rightarrow> int \<Rightarrow> byte list" where
  "to_bytes_le 0 x = []"
| "to_bytes_le (Suc k) x = word_of_int (x mod 256) # to_bytes_le k (x div 256)"

text \<open>
  \<^verbatim>\<open>bitstream.to_bytes(length, byteorder='little')\<close>, unsigned. Only a Python int has
  the method: a NumPy scalar has \<^verbatim>\<open>tobytes\<close> but no \<^verbatim>\<open>to_bytes\<close>, and the attribute
  lookup raises.
\<close>

fun to_bytes :: "scalar \<Rightarrow> int \<Rightarrow> error + byte list" where
  "to_bytes (NpInt a) len = Inl (AttributeError ''numpy.int32 object has no attribute to_bytes'')"
| "to_bytes (PyInt x) len =
     (if len < 0 then Inl (ValueError ''length argument must be non-negative'')
      else if x < 0 then Inl (OverflowError ''can't convert negative int to unsigned'')
      else if 2 ^ (8 * nat len) \<le> x then Inl (OverflowError ''int too big to convert'')
      else Inr (to_bytes_le (nat len) x))"

text \<open>
  \<^verbatim>\<open>regs[i] = v\<close> on an array of dtype \<^verbatim>\<open>int32\<close>: NumPy 2 raises for a Python int
  outside the range of the element type.
\<close>

definition store_int32 :: "int \<Rightarrow> error + int" where
  "store_int32 v =
     (if in_int32 v then Inr v else Inl (OverflowError ''Python integer out of bounds for int32''))"

section \<open>Dense codec\<close>

text \<open>
  The argument \<^verbatim>\<open>registers\<close>: a one-dimensional \<^verbatim>\<open>ndarray\<close> of an integer dtype,
  given by its elements, or a plain Python list of ints (the docstring's \<^verbatim>\<open>List[int]\<close>),
  which the first check of \<^verbatim>\<open>pack_registers\<close> rejects.
\<close>

datatype registers_arg = IntArray "int list" | PyList "int list"

text \<open>
  The truth value of an \<^verbatim>\<open>ndarray\<close>, used by \<^verbatim>\<open>if not registers\<close>: an empty array
  is false (NumPy up to 2.1, with a deprecation warning; the source relies on it), an
  array of one element has the truth value of that element, and a longer array raises.
\<close>

definition array_bool :: "int list \<Rightarrow> error + bool" where
  "array_bool xs =
     (if length xs = 0 then Inr False
      else if length xs = 1 then Inr (hd xs \<noteq> 0)
      else Inl (ValueError
        ''The truth value of an array with more than one element is ambiguous. Use a.any() or a.all()''))"

text \<open>Lines 37 to 46: the validation loop.\<close>

fun check_registers :: "int \<Rightarrow> scalar list \<Rightarrow> error + unit" where
  "check_registers max_val [] = Inr ()"
| "check_registers max_val (val # rest) =
     (if \<not> isinstance_int val then Inl (ValueError ''Register {i} must be an integer'')
      else if scalar_val val < 0 then Inl (ValueError ''Register {i} must be non-negative'')
      else if scalar_val val > max_val
        then Inl (ValueError ''Register {i} value {val} exceeds {binbits}-bit limit ({max_val})'')
      else check_registers max_val rest)"

text \<open>Lines 55 to 57: the packing loop, \<open>i\<close> the index that \<^verbatim>\<open>enumerate\<close> counts.\<close>

fun pack_loop :: "int \<Rightarrow> int \<Rightarrow> scalar list \<Rightarrow> scalar \<Rightarrow> error + scalar" where
  "pack_loop binbits i [] bitstream = Inr bitstream"
| "pack_loop binbits i (val # rest) bitstream =
     bindE (s_and val (push_bit (nat binbits) 1 - 1)) (\<lambda>masked.
     bindE (s_lshift masked (i * binbits)) (\<lambda>field.
     bindE (s_or bitstream field) (\<lambda>bitstream'.
     pack_loop binbits (i + 1) rest bitstream')))"

definition pack_registers :: "registers_arg \<Rightarrow> int \<Rightarrow> error + byte list" where
  "pack_registers registers binbits =
     (case registers of
        PyList xs \<Rightarrow> Inl (ValueError ''registers must be a numpy array of integers'')
      | IntArray xs \<Rightarrow>
          if binbits \<le> 0 then Inl (ValueError ''binbits must be a positive integer'')
          else if binbits > 64
            then Inl (ValueError ''binbits must be <= 64 to prevent memory issues'')
          else bindE (array_bool xs) (\<lambda>truth.
            if \<not> truth then Inr []
            else
              let max_val = push_bit (nat binbits) 1 - 1 in
              bindE (check_registers max_val (map NpInt xs)) (\<lambda>u.
                let total_bits = int (length xs) * binbits in
                if total_bits > 2 ^ 20
                  then Inl (OverflowError
                    ''Total bits ({total_bits}) too large, risk of memory overflow'')
                else
                  let m = int (length xs) in
                  bindE (pack_loop binbits 0 (map NpInt xs) (PyInt 0)) (\<lambda>bitstream.
                    let needed_bytes = (m * binbits + 7) div 8 in
                    to_bytes bitstream needed_bytes))))"

definition unpack_registers :: "byte list \<Rightarrow> int \<Rightarrow> int \<Rightarrow> error + int list" where
  "unpack_registers data m binbits =
     (if m < 0 then Inl (ValueError ''m must be a non-negative integer'')
      else if binbits \<le> 0 then Inl (ValueError ''binbits must be a positive integer'')
      else if binbits > 64
        then Inl (ValueError ''binbits must be <= 64 to prevent memory issues'')
      else if m = 0 then Inr []
      else
        let required_bits = m * binbits;
            required_bytes = (required_bits + 7) div 8 in
        if int (length data) < required_bytes
          then Inl (ValueError ''Insufficient data: need {required_bytes} bytes, got {len(data)}'')
        else if required_bits > 2 ^ 20
          then Inl (OverflowError
            ''Total bits ({required_bits}) too large, risk of memory overflow'')
        else
          let bitstream = from_bytes data;
              mask = push_bit (nat binbits) 1 - 1 in
          mapE (\<lambda>i. let shift = int i * binbits in
                  store_int32 (drop_bit (nat shift) bitstream AND mask))
               [0..<nat m])"

section \<open>Sparse codec\<close>

text \<open>
  The argument \<^verbatim>\<open>sparse_registers\<close>: an \<^verbatim>\<open>ndarray\<close> of dtype \<^verbatim>\<open>int32\<close> and shape
  \<open>(n, 2)\<close>, as the signature and the docstring declare it (its elements are within the
  \<^verbatim>\<open>int32\<close> range), or a Python sequence of pairs of Python ints, as the callers of an
  unannotated interface may pass it: the function checks nothing about its argument.
  The loop \<^verbatim>\<open>for idx, rho in sparse_registers\<close> binds NumPy scalars in the first
  case and Python ints in the second.
\<close>

datatype entries_arg = Int32Array "(int \<times> int) list" | PyPairs "(int \<times> int) list"

fun rows :: "entries_arg \<Rightarrow> (scalar \<times> scalar) list" where
  "rows (Int32Array es) = map (\<lambda>(idx, rho). (NpInt idx, NpInt rho)) es"
| "rows (PyPairs es) = map (\<lambda>(idx, rho). (PyInt idx, PyInt rho)) es"

text \<open>
  Lines 126 to 129: the loop state is \<open>(bitstream, total_bits)\<close>; the operands are
  evaluated left to right, as Python does.
\<close>

fun compress_loop ::
  "int \<Rightarrow> int \<Rightarrow> (scalar \<times> scalar) list \<Rightarrow> scalar \<times> int \<Rightarrow> error + scalar \<times> int" where
  "compress_loop rbits entrybits [] st = Inr st"
| "compress_loop rbits entrybits ((idx, rho) # rest) (bitstream, total_bits) =
     bindE (s_lshift idx rbits) (\<lambda>hi.
     bindE (py_lshift 1 rbits) (\<lambda>one.
     bindE (s_and rho (one - 1)) (\<lambda>lo.
     bindE (s_or hi lo) (\<lambda>entry.
     bindE (s_lshift entry total_bits) (\<lambda>placed.
     bindE (s_or bitstream placed) (\<lambda>bitstream'.
     compress_loop rbits entrybits rest (bitstream', total_bits + entrybits)))))))"

definition compress_sparse_registers :: "entries_arg \<Rightarrow> int \<Rightarrow> int \<Rightarrow> error + byte list" where
  "compress_sparse_registers sparse_registers b rbits =
     (let entrybits = b + rbits in
      bindE (compress_loop rbits entrybits (rows sparse_registers) (PyInt 0, 0))
        (\<lambda>(bitstream, total_bits).
           let num_bytes = (total_bits + 7) div 8 in
           to_bytes bitstream num_bytes))"

text \<open>
  \<open>decompress_sparse_registers\<close> works on Python ints throughout and stores the fields
  into an \<^verbatim>\<open>int32\<close> array of shape \<open>(num_entries, 2)\<close>, returned here as the list of
  its rows. \<^verbatim>\<open>total_bits // entrybits\<close> raises for \<open>entrybits = 0\<close>,
  \<^verbatim>\<open>np.empty\<close> raises for a negative dimension, and the two \<^verbatim>\<open>1 << n\<close> raise for a
  negative count. Inside the loop \<open>entrybits\<close> is positive and \<open>rbits\<close> is not negative, so
  the right shifts cannot raise.
\<close>

definition decompress_sparse_registers ::
  "byte list \<Rightarrow> int \<Rightarrow> int \<Rightarrow> error + (int \<times> int) list" where
  "decompress_sparse_registers data b rbits =
     (let bitstream = from_bytes data;
          entrybits = b + rbits;
          total_bits = int (length data) * 8 in
      if entrybits = 0 then Inl (ZeroDivisionError ''integer division or modulo by zero'')
      else
        let num_entries = total_bits div entrybits in
        if num_entries < 0 then Inl (ValueError ''negative dimensions are not allowed'')
        else
          bindE (py_lshift 1 entrybits) (\<lambda>m1.
          bindE (py_lshift 1 rbits) (\<lambda>r1.
            let mask = m1 - 1; rhomask = r1 - 1 in
            mapE (\<lambda>i.
                let shift = int i * entrybits;
                    entry = drop_bit (nat shift) bitstream AND mask;
                    idx = drop_bit (nat rbits) entry;
                    rho = entry AND rhomask in
                bindE (store_int32 idx) (\<lambda>idx32.
                bindE (store_int32 rho) (\<lambda>rho32. Inr (idx32, rho32))))
              [0..<nat num_entries])))"

subsection \<open>The accumulator as a function of the entries\<close>

text \<open>
  Auxiliary functions for the proofs about sequences of Python ints. \<open>entry_field\<close> is
  the composite field \<^verbatim>\<open>(idx << rbits) | (rho & ((1 << rbits) - 1))\<close> of one entry,
  \<open>accum r e t es\<close> is what the loop of \<open>compress_sparse_registers\<close> ORs into
  \<^verbatim>\<open>bitstream\<close> for the entries \<open>es\<close> when it starts at bit offset \<open>t\<close>, and
  \<open>decode_slot\<close> is the pair that the loop of \<open>decompress_sparse_registers\<close> reads
  from slot \<open>i\<close>. \<open>entries_of\<close> gives the entries of either argument form.
\<close>

definition entry_field :: "nat \<Rightarrow> int \<times> int \<Rightarrow> int" where
  "entry_field r x = push_bit r (fst x) OR take_bit r (snd x)"

fun accum :: "nat \<Rightarrow> nat \<Rightarrow> nat \<Rightarrow> (int \<times> int) list \<Rightarrow> int" where
  "accum r e t [] = 0"
| "accum r e t (x # xs) = push_bit t (entry_field r x) OR accum r e (t + e) xs"

definition decode_slot :: "nat \<Rightarrow> nat \<Rightarrow> int \<Rightarrow> nat \<Rightarrow> int \<times> int" where
  "decode_slot b r bitstream i =
     (let entry = take_bit (b + r) (drop_bit (i * (b + r)) bitstream)
      in (drop_bit r entry, take_bit r entry))"

fun entries_of :: "entries_arg \<Rightarrow> (int \<times> int) list" where
  "entries_of (Int32Array es) = es"
| "entries_of (PyPairs es) = es"

section \<open>Dense codec: results\<close>

text \<open>
  C10. For the one-element array \<open>[0]\<close> and every \<open>binbits\<close> in \<open>[1, 64]\<close>,
  \<open>pack_registers\<close> returns the empty byte string, not the \<open>ceil(binbits / 8) \<ge> 1\<close>
  bytes of the length law: \<^verbatim>\<open>not registers\<close> is true for an array whose single element
  is zero.
\<close>

theorem pack_registers_single_zero:
  "1 \<le> binbits \<Longrightarrow> binbits \<le> 64 \<Longrightarrow>
     pack_registers (IntArray [0]) binbits = Inr [] \<and>
     length ([] :: byte list) < nat ((int (length [0 :: int]) * binbits + 7) div 8)"
  by (simp add: pack_registers_def array_bool_def bindE_def)

theorem pack_registers_single_zero_witness:
  "(1 :: int) \<le> 4 \<and> (4 :: int) \<le> 64 \<and> pack_registers (IntArray [0]) 4 = Inr [] \<and>
     length ([] :: byte list) < nat ((int (length [0 :: int]) * 4 + 7) div 8)"
  using pack_registers_single_zero [of 4] by simp

subsection \<open>Which arrays \<open>pack_registers\<close> packs\<close>

text \<open>
  An array of two or more registers never passes the emptiness test of line 31, and a
  single non-zero register never passes the \<^verbatim>\<open>isinstance(val, int)\<close> test of
  line 39. So \<open>pack_registers\<close> returns bytes only for the empty array and for \<open>[0]\<close>,
  and the packing loop of lines 54 to 60 is never reached.
\<close>

lemma pack_registers_long_array:
  assumes "2 \<le> length xs" and "1 \<le> binbits" and "binbits \<le> 64"
  shows "pack_registers (IntArray xs) binbits = Inl (ValueError
    ''The truth value of an array with more than one element is ambiguous. Use a.any() or a.all()'')"
proof -
  from assms(1) have "length xs \<noteq> 0" and "length xs \<noteq> 1" by auto
  with assms(2,3) show ?thesis
    by (simp add: pack_registers_def array_bool_def bindE_def)
qed

lemma pack_registers_single_nonzero:
  assumes "x \<noteq> 0" and "1 \<le> binbits" and "binbits \<le> 64"
  shows "pack_registers (IntArray [x]) binbits =
    Inl (ValueError ''Register {i} must be an integer'')"
  using assms by (simp add: pack_registers_def array_bool_def bindE_def)

lemma pack_registers_PyList:
  "pack_registers (PyList xs) binbits =
     Inl (ValueError ''registers must be a numpy array of integers'')"
  by (simp add: pack_registers_def)

lemma pack_registers_returns:
  assumes "pack_registers registers binbits = Inr bs"
  shows "(registers = IntArray [] \<or> registers = IntArray [0]) \<and> bs = []"
proof (cases registers)
  case (PyList xs)
  with assms show ?thesis by (simp add: pack_registers_def)
next
  case (IntArray xs)
  from assms IntArray have valid: "1 \<le> binbits" "binbits \<le> 64"
    by (auto simp: pack_registers_def split: if_splits)
  consider "xs = []" | x where "xs = [x]" | "2 \<le> length xs"
    by (cases xs rule: list.exhaust; cases "tl xs"; fastforce)
  then show ?thesis
  proof cases
    case 1
    with assms IntArray valid show ?thesis
      by (simp add: pack_registers_def array_bool_def bindE_def)
  next
    case 2
    show ?thesis
    proof (cases "x = 0")
      case True
      with assms IntArray valid 2 show ?thesis
        by (simp add: pack_registers_def array_bool_def bindE_def)
    next
      case False
      with assms IntArray valid 2 show ?thesis
        by (simp add: pack_registers_single_nonzero)
    qed
  next
    case 3
    with assms IntArray valid show ?thesis
      by (simp add: pack_registers_long_array)
  qed
qed

text \<open>In particular the capacity check of line 50 never fires.\<close>

lemma pack_registers_no_overflow_error:
  "pack_registers registers binbits \<noteq> Inl (OverflowError msg)"
proof (cases registers)
  case (PyList xs)
  then show ?thesis by (simp add: pack_registers_def)
next
  case (IntArray xs)
  show ?thesis
  proof (cases "1 \<le> binbits \<and> binbits \<le> 64")
    case False
    with IntArray show ?thesis
      by (auto simp: pack_registers_def)
  next
    case True
    then have valid: "1 \<le> binbits" "binbits \<le> 64" by simp_all
    consider "xs = []" | "xs = [0]" | x where "xs = [x]" "x \<noteq> 0" | "2 \<le> length xs"
      by (cases xs rule: list.exhaust; cases "tl xs"; fastforce)
    then show ?thesis
    proof cases
      case 1
      with IntArray valid show ?thesis
        by (simp add: pack_registers_def array_bool_def bindE_def)
    next
      case 2
      with IntArray valid show ?thesis
        by (simp add: pack_registers_def array_bool_def bindE_def)
    next
      case 3
      with IntArray valid show ?thesis
        by (simp add: pack_registers_single_nonzero)
    next
      case 4
      with IntArray valid show ?thesis
        by (simp add: pack_registers_long_array)
    qed
  qed
qed

text \<open>
  C1. The dense round trip \<open>unpack_registers (pack_registers R binbits) m binbits = R\<close>
  fails on the code for every non-empty array. Evaluated here at \<open>R = [7, 9]\<close> (the
  emptiness test raises), at \<open>R = [5]\<close> (the element is a NumPy scalar, not an
  \<^verbatim>\<open>int\<close>) and at \<open>R = [0]\<close> (packed to no bytes, which \<open>unpack_registers\<close> then
  rejects), all with \<open>binbits = 4\<close>.
\<close>

theorem dense_roundtrip_fails:
  "bindE (pack_registers (IntArray [7, 9]) 4) (\<lambda>d. unpack_registers d 2 4) =
     Inl (ValueError
       ''The truth value of an array with more than one element is ambiguous. Use a.any() or a.all()'') \<and>
   bindE (pack_registers (IntArray [5]) 4) (\<lambda>d. unpack_registers d 1 4) =
     Inl (ValueError ''Register {i} must be an integer'') \<and>
   bindE (pack_registers (IntArray [0]) 4) (\<lambda>d. unpack_registers d 1 4) =
     Inl (ValueError ''Insufficient data: need {required_bytes} bytes, got {len(data)}'')"
  by (simp add: pack_registers_def array_bool_def bindE_def unpack_registers_def)

text \<open>
  C2. The dense vector: \<open>unpack_registers\<close> on the bytes \<open>[0x21, 0x03]\<close> with \<open>m = 3\<close>,
  \<open>binbits = 4\<close> returns \<open>[1, 2, 3]\<close>, but \<open>pack_registers\<close> on the array \<open>[1, 2, 3]\<close>
  raises instead of returning \<open>[0x21, 0x03]\<close>, and it rejects the Python list
  \<open>[1, 2, 3]\<close> as well.
\<close>

theorem dense_vector:
  "unpack_registers [0x21, 0x03] 3 4 = Inr [1, 2, 3] \<and>
   pack_registers (IntArray [1, 2, 3]) 4 =
     Inl (ValueError
       ''The truth value of an array with more than one element is ambiguous. Use a.any() or a.all()'') \<and>
   pack_registers (PyList [1, 2, 3]) 4 =
     Inl (ValueError ''registers must be a numpy array of integers'')"
  by (simp add: pack_registers_def array_bool_def bindE_def unpack_registers_def
      store_int32_def in_int32_def upt_rec)

text \<open>
  C3. The length law \<open>len(pack(R, binbits)) = ceil(len(R) * binbits / 8)\<close> fails on the
  code: for the four registers \<open>[1, 2, 3, 4]\<close> at \<open>binbits = 8\<close> no byte string is
  returned at all, where the law asks for four bytes.
\<close>

theorem pack_registers_length_law_fails:
  "pack_registers (IntArray [1, 2, 3, 4]) 8 =
     Inl (ValueError
       ''The truth value of an array with more than one element is ambiguous. Use a.any() or a.all()'') \<and>
   (int (length [1, 2, 3, 4 :: int]) * 8 + 7) div 8 = 4"
  by (simp add: pack_registers_def array_bool_def bindE_def)

text \<open>
  C4. The capacity ceiling: 300000 registers at \<open>binbits = 4\<close> are 1200000 bits, more
  than \<open>2^20\<close>, but the call ends in the \<^verbatim>\<open>ValueError\<close> of the emptiness test of
  line 31, before the capacity check of line 50 is reached; no
  \<^verbatim>\<open>OverflowError\<close> is raised.
\<close>

theorem pack_registers_capacity_not_reached:
  "int (length (replicate 300000 (0 :: int))) * 4 > 2 ^ 20 \<and>
   pack_registers (IntArray (replicate 300000 0)) 4 =
     Inl (ValueError
       ''The truth value of an array with more than one element is ambiguous. Use a.any() or a.all()'')"
  by (simp add: pack_registers_def array_bool_def bindE_def)

text \<open>
  C7. Boundary rejection: \<open>pack_registers\<close> on \<open>[-1]\<close> and on \<open>[16]\<close> with
  \<open>binbits = 4\<close> fails with \<^verbatim>\<open>ValueError\<close> (the spec's InvalidArgument), and
  \<open>unpack_registers\<close> on no bytes with \<open>m = 3\<close>, \<open>binbits = 4\<close> fails with the
  \<^verbatim>\<open>ValueError\<close> for insufficient data.
\<close>

theorem boundary_rejection:
  "pack_registers (IntArray [- 1]) 4 = Inl (ValueError ''Register {i} must be an integer'') \<and>
   pack_registers (IntArray [16]) 4 = Inl (ValueError ''Register {i} must be an integer'') \<and>
   unpack_registers [] 3 4 =
     Inl (ValueError ''Insufficient data: need {required_bytes} bytes, got {len(data)}'')"
  by (simp add: pack_registers_def array_bool_def bindE_def unpack_registers_def)

text \<open>
  C9. Empty input: for every \<open>binbits\<close> in \<open>[1, 64]\<close>, \<open>pack_registers\<close> on the empty
  array returns no bytes, and \<open>unpack_registers\<close> with \<open>m = 0\<close> returns the empty
  sequence whatever the bytes are.
\<close>

theorem empty_input:
  "1 \<le> binbits \<Longrightarrow> binbits \<le> 64 \<Longrightarrow>
     pack_registers (IntArray []) binbits = Inr [] \<and>
     unpack_registers data 0 binbits = Inr []"
  by (simp add: pack_registers_def array_bool_def bindE_def unpack_registers_def)

theorem empty_input_witness:
  "(1 :: int) \<le> 6 \<and> (6 :: int) \<le> 64 \<and>
     pack_registers (IntArray []) 6 = Inr [] \<and>
     unpack_registers [0xFF, 0x01, 0x80] 0 6 = Inr []"
  using empty_input [of 6 "[0xFF, 0x01, 0x80]"] by simp

section \<open>Sparse codec: results\<close>

subsection \<open>Sequences of Python ints\<close>

lemma bindE_Inr [simp]: "bindE (Inr v) f = f v"
  by (simp add: bindE_def)

lemma bindE_Inl [simp]: "bindE (Inl e) f = Inl e"
  by (simp add: bindE_def)

lemma length_to_bytes_le [simp]: "length (to_bytes_le k x) = k"
  by (induction k arbitrary: x) simp_all

lemma from_bytes_to_bytes_le: "from_bytes (to_bytes_le k x) = x mod 256 ^ k"
proof (induction k arbitrary: x)
  case 0
  show ?case by simp
next
  case (Suc k)
  have "uint (word_of_int (x mod 256) :: byte) = x mod 256"
    by (simp add: uint_word_of_int take_bit_eq_mod)
  moreover have "x mod (256 * 256 ^ k) = 256 * (x div 256 mod 256 ^ k) + x mod 256"
    by (rule zmod_zmult2_eq) simp
  ultimately show ?case
    using Suc by simp
qed

lemma mapE_Inr:
  assumes "\<And>x. x \<in> set xs \<Longrightarrow> f x = Inr (g x)"
  shows "mapE f xs = Inr (map g xs)"
  using assms by (induction xs) simp_all

lemma and_mask_int: "(x :: int) AND (2 ^ n - 1) = take_bit n x"
  by (simp add: take_bit_eq_mask mask_eq_exp_minus_1)

lemma compress_loop_pairs:
  "compress_loop (int r) (int e) (map (\<lambda>(idx, rho). (PyInt idx, PyInt rho)) es) (PyInt bs, int t) =
     Inr (PyInt (bs OR accum r e t es), int t + int (length es) * int e)"
proof (induction es arbitrary: bs t)
  case Nil
  show ?case by simp
next
  case (Cons x es)
  obtain idx rho where x: "x = (idx, rho)" by (cases x)
  have step: "int t + int e = int (t + e)" by simp
  show ?case
    unfolding x
    apply (simp only: list.map prod.case compress_loop.simps s_lshift.simps py_lshift_def
        s_and.simps s_or.simps bindE_Inr of_nat_less_0_iff if_False nat_int push_bit_of_1
        and_mask_int step Cons.IH)
    apply (simp add: entry_field_def or.assoc push_bit_or algebra_simps)
    done
qed

lemma compress_pairs:
  "compress_sparse_registers (PyPairs es) (int b) (int r) =
     to_bytes (PyInt (accum r (b + r) 0 es)) ((int (length es) * int (b + r) + 7) div 8)"
  using compress_loop_pairs [of r "b + r" es 0 0]
  by (simp add: compress_sparse_registers_def)

lemma accum_shift: "accum r e t es = push_bit t (accum r e 0 es)"
proof (induction es arbitrary: t)
  case Nil
  show ?case by simp
next
  case (Cons x es)
  have "accum r e (t + e) es = push_bit (t + e) (accum r e 0 es)"
    by (rule Cons.IH)
  moreover have "accum r e e es = push_bit e (accum r e 0 es)"
    by (rule Cons.IH)
  ultimately show ?case
    by (simp add: push_bit_or push_bit_push_bit add.commute)
qed

lemma accum_Cons: "accum r e 0 (x # es) = entry_field r x OR push_bit e (accum r e 0 es)"
  using accum_shift [of r e e es] by simp


lemma fits_mono:
  assumes "take_bit m (x :: int) = x" and "m \<le> n"
  shows "take_bit n x = x"
proof -
  have "take_bit n (take_bit m x) = take_bit m x"
    using assms(2) by (simp add: min_def)
  with assms(1) show ?thesis by simp
qed

lemma fits_iff: "take_bit n (x :: int) = x \<longleftrightarrow> 0 \<le> x \<and> x < 2 ^ n"
  by (simp add: take_bit_int_eq_self_iff)

lemma fits_drop: "take_bit n (x :: int) = x \<Longrightarrow> drop_bit n x = 0"
  by (metis drop_bit_take_bit diff_self_eq_0 take_bit_0)

lemma entry_field_fits:
  assumes "take_bit b (fst x) = fst x"
  shows "take_bit (b + r) (entry_field r x) = entry_field r x"
proof -
  have "take_bit (b + r) (push_bit r (fst x)) = push_bit r (fst x)"
    using assms by (simp add: take_bit_push_bit)
  moreover have "take_bit (b + r) (take_bit r (snd x)) = take_bit r (snd x)"
    by (simp add: min_def)
  ultimately show ?thesis
    by (simp add: entry_field_def take_bit_or)
qed

lemma entry_field_idx: "drop_bit r (entry_field r x) = fst x"
  by (simp add: entry_field_def drop_bit_or drop_bit_take_bit drop_bit_push_bit)

lemma entry_field_rho: "take_bit r (entry_field r x) = take_bit r (snd x)"
  by (simp add: entry_field_def take_bit_or take_bit_push_bit)

lemma accum_fits:
  assumes "\<And>x. x \<in> set es \<Longrightarrow> take_bit b (fst x) = fst x"
  shows "take_bit (length es * (b + r)) (accum r (b + r) 0 es) = accum r (b + r) 0 es"
  using assms
proof (induction es)
  case Nil
  show ?case by simp
next
  case (Cons x es)
  have "take_bit (b + r) (entry_field r x) = entry_field r x"
    by (rule entry_field_fits) (simp add: Cons.prems)
  then have a: "take_bit (length (x # es) * (b + r)) (entry_field r x) = entry_field r x"
    by (rule fits_mono) simp
  have "take_bit (length es * (b + r)) (accum r (b + r) 0 es) = accum r (b + r) 0 es"
    by (rule Cons.IH) (simp add: Cons.prems)
  then have b: "take_bit (length (x # es) * (b + r)) (push_bit (b + r) (accum r (b + r) 0 es))
      = push_bit (b + r) (accum r (b + r) 0 es)"
    by (simp add: take_bit_push_bit)
  show ?case
    unfolding accum_Cons take_bit_or a b ..
qed

lemma accum_drop:
  assumes "\<And>x. x \<in> set es \<Longrightarrow> take_bit b (fst x) = fst x"
  shows "drop_bit (i * (b + r)) (accum r (b + r) 0 es) = accum r (b + r) 0 (drop i es)"
  using assms
proof (induction i arbitrary: es)
  case 0
  show ?case by simp
next
  case (Suc i)
  show ?case
  proof (cases es)
    case Nil
    then show ?thesis by simp
  next
    case (Cons x xs)
    have "take_bit (b + r) (entry_field r x) = entry_field r x"
      by (rule entry_field_fits) (simp add: Suc.prems Cons)
    then have "drop_bit (b + r) (entry_field r x) = 0"
      by (rule fits_drop)
    then have "drop_bit (b + r) (accum r (b + r) 0 es) = accum r (b + r) 0 xs"
      unfolding Cons accum_Cons by (simp add: drop_bit_or drop_bit_push_bit)
    moreover have "drop_bit (i * (b + r)) (accum r (b + r) 0 xs) = accum r (b + r) 0 (drop i xs)"
      by (rule Suc.IH) (simp add: Suc.prems Cons)
    moreover have "drop_bit (Suc i * (b + r)) (accum r (b + r) 0 es)
        = drop_bit (i * (b + r)) (drop_bit (b + r) (accum r (b + r) 0 es))"
      by (simp add: drop_bit_drop_bit add.commute)
    ultimately show ?thesis
      by (simp add: Cons)
  qed
qed

lemma accum_slot:
  assumes "\<And>x. x \<in> set es \<Longrightarrow> take_bit b (fst x) = fst x"
  shows "take_bit (b + r) (drop_bit (i * (b + r)) (accum r (b + r) 0 es)) =
    (if i < length es then entry_field r (es ! i) else 0)"
proof (cases "i < length es")
  case False
  then show ?thesis
    by (simp add: accum_drop [OF assms])
next
  case True
  then obtain x xs where d: "drop i es = x # xs" and x: "x = es ! i"
    by (metis Cons_nth_drop_Suc)
  have "x \<in> set es"
    using True x by simp
  then have "take_bit (b + r) (entry_field r x) = entry_field r x"
    by (intro entry_field_fits assms)
  moreover have "accum r (b + r) 0 (drop i es) =
      entry_field r x OR push_bit (b + r) (accum r (b + r) 0 xs)"
    unfolding d by (rule accum_Cons)
  ultimately show ?thesis
    using True x
    by (simp add: accum_drop [OF assms] take_bit_or take_bit_push_bit)
qed


lemma store_int32_small:
  assumes "0 \<le> v" and "v < 2 ^ n" and "n \<le> 31"
  shows "store_int32 v = Inr v"
proof -
  have "(2 :: int) ^ n \<le> 2 ^ 31"
    using assms(3) by (intro power_increasing) simp_all
  with assms(1,2) show ?thesis
    by (simp add: store_int32_def in_int32_def)
qed

lemma decompress_slots:
  assumes "1 \<le> b + r" and "b \<le> 31" and "r \<le> 31"
  shows "decompress_sparse_registers data (int b) (int r) =
    Inr (map (decode_slot b r (from_bytes data)) [0..<(length data * 8) div (b + r)])"
proof -
  let ?e = "b + r"
  let ?bs = "from_bytes data"
  let ?body = "\<lambda>i.
      let shift = int i * (int b + int r);
          entry = drop_bit (nat shift) ?bs AND (2 ^ ?e - 1);
          idx = drop_bit (nat (int r)) entry;
          rho = entry AND (2 ^ r - 1) in
      bindE (store_int32 idx) (\<lambda>idx32.
      bindE (store_int32 rho) (\<lambda>rho32. Inr (idx32, rho32)))"
  have e: "int b + int r = int ?e" by simp
  have n: "int (length data) * 8 div (int b + int r) = int ((length data * 8) div ?e)"
    unfolding e by (simp add: zdiv_int)
  have body: "?body i = Inr (decode_slot b r ?bs i)" for i
  proof -
    let ?entry = "take_bit ?e (drop_bit (i * ?e) ?bs)"
    have "int i * (int b + int r) = int (i * ?e)"
      by simp
    then have sh: "nat (int i * (int b + int r)) = i * ?e"
      by (simp only: nat_int)
    have idx: "drop_bit r ?entry = take_bit b (drop_bit r (drop_bit (i * ?e) ?bs))"
      by (simp add: drop_bit_take_bit)
    have "store_int32 (drop_bit r ?entry) = Inr (drop_bit r ?entry)"
      unfolding idx using assms(2) by (intro store_int32_small [where n = b]) simp_all
    moreover have "store_int32 (take_bit r ?entry) = Inr (take_bit r ?entry)"
      using assms(3) by (intro store_int32_small [where n = r]) simp_all
    ultimately show ?thesis
      by (simp add: sh and_mask_int decode_slot_def Let_def)
  qed
  have "decompress_sparse_registers data (int b) (int r) =
      mapE ?body [0..<(length data * 8) div ?e]"
    using assms(1)
    apply (simp only: decompress_sparse_registers_def Let_def n)
    apply (simp add: py_lshift_def push_bit_of_1 nat_add_distrib)
    done
  also have "\<dots> = Inr (map (decode_slot b r ?bs) [0..<(length data * 8) div ?e])"
    by (rule mapE_Inr) (rule body)
  finally show ?thesis .
qed

lemma decode_slot_accum:
  assumes "\<And>x. x \<in> set es \<Longrightarrow> take_bit b (fst x) = fst x \<and> take_bit r (snd x) = snd x"
  shows "decode_slot b r (accum r (b + r) 0 es) i = (if i < length es then es ! i else (0, 0))"
proof -
  have fits: "\<And>x. x \<in> set es \<Longrightarrow> take_bit b (fst x) = fst x"
    using assms by simp
  show ?thesis
  proof (cases "i < length es")
    case False
    then show ?thesis
      by (simp add: decode_slot_def accum_slot [OF fits])
  next
    case True
    then have "es ! i \<in> set es" by simp
    then have "take_bit r (snd (es ! i)) = snd (es ! i)"
      using assms by simp
    with True show ?thesis
      by (simp add: decode_slot_def accum_slot [OF fits] entry_field_idx entry_field_rho
          prod_eq_iff)
  qed
qed

lemma slots_append:
  assumes "length es \<le> n"
  shows "map (\<lambda>i. if i < length es then es ! i else z) [0..<n] = es @ replicate (n - length es) z"
  using assms by (intro nth_equalityI) (auto simp: nth_append)

lemma sparse_roundtrip_pairs:
  assumes "1 \<le> b + r" and "b \<le> 31" and "r \<le> 31"
    and "\<And>x. x \<in> set es \<Longrightarrow> take_bit b (fst x) = fst x \<and> take_bit r (snd x) = snd x"
  defines "d \<equiv> to_bytes_le ((length es * (b + r) + 7) div 8) (accum r (b + r) 0 es)"
  shows "compress_sparse_registers (PyPairs es) (int b) (int r) = Inr d"
    and "decompress_sparse_registers d (int b) (int r) =
      Inr (es @ replicate ((length d * 8) div (b + r) - length es) (0, 0))"
proof -
  let ?e = "b + r"
  let ?n = "length es"
  let ?nb = "(?n * ?e + 7) div 8"
  let ?acc = "accum r ?e 0 es"
  have fits: "\<And>x. x \<in> set es \<Longrightarrow> take_bit b (fst x) = fst x"
    using assms(4) by simp
  have "take_bit (?n * ?e) ?acc = ?acc"
    by (rule accum_fits [OF fits])
  then have acc8: "take_bit (8 * ?nb) ?acc = ?acc"
    by (rule fits_mono) arith
  then have bounds: "0 \<le> ?acc" "?acc < 2 ^ (8 * ?nb)"
    by (simp_all add: fits_iff)
  have nb: "(int ?n * int ?e + 7) div 8 = int ?nb"
    by (simp add: zdiv_int)
  show c: "compress_sparse_registers (PyPairs es) (int b) (int r) = Inr d"
    using bounds unfolding compress_pairs nb d_def by simp
  have "from_bytes d = ?acc mod 256 ^ ?nb"
    unfolding d_def by (rule from_bytes_to_bytes_le)
  also have "(256 :: int) ^ ?nb = 2 ^ (8 * ?nb)"
    by (simp add: power_mult)
  also have "?acc mod 2 ^ (8 * ?nb) = ?acc"
    using acc8 by (simp add: take_bit_eq_mod)
  finally have fb: "from_bytes d = ?acc" .
  have len: "length d = ?nb"
    by (simp add: d_def)
  have "?n * ?e \<le> ?nb * 8" by arith
  then have "(?n * ?e) div ?e \<le> (?nb * 8) div ?e"
    by (rule div_le_mono)
  then have le: "?n \<le> (length d * 8) div ?e"
    using assms(1) by (auto simp: len split: if_splits)
  have "decompress_sparse_registers d (int b) (int r) =
      Inr (map (decode_slot b r ?acc) [0..<(length d * 8) div ?e])"
    using decompress_slots [OF assms(1-3), of d] by (simp add: fb)
  also have "map (decode_slot b r ?acc) [0..<(length d * 8) div ?e] =
      map (\<lambda>i. if i < ?n then es ! i else (0, 0)) [0..<(length d * 8) div ?e]"
    by (simp add: decode_slot_accum [OF assms(4)])
  also have "\<dots> = es @ replicate ((length d * 8) div ?e - ?n) (0, 0)"
    by (rule slots_append [OF le])
  finally show "decompress_sparse_registers d (int b) (int r) =
      Inr (es @ replicate ((length d * 8) div (b + r) - length es) (0, 0))" .
qed


subsection \<open>Arrays of \<^verbatim>\<open>int32\<close>\<close>

text \<open>
  On an \<^verbatim>\<open>int32\<close> array the first \<^verbatim>\<open>bitstream |= ...\<close> turns the accumulator
  into a NumPy scalar, and it stays one. After a non-empty loop the call
  \<^verbatim>\<open>bitstream.to_bytes\<close> therefore raises (if nothing raised before), so
  \<open>compress_sparse_registers\<close> returns bytes for such an array only when it is empty.
\<close>

lemma compress_loop_numpy:
  assumes "compress_loop rbits e (map (\<lambda>(idx, rho). (NpInt idx, NpInt rho)) es) (NpInt a, t) = Inr (bs, t')"
  shows "\<exists>c. bs = NpInt c"
  using assms
proof (induction es arbitrary: a t)
  case Nil
  then show ?case by auto
next
  case (Cons x es)
  obtain idx rho where x: "x = (idx, rho)" by (cases x)
  from Cons.prems obtain a' where
    "compress_loop rbits e (map (\<lambda>(idx, rho). (NpInt idx, NpInt rho)) es) (NpInt a', t + e) = Inr (bs, t')"
    unfolding x
    by (auto simp: bindE_def py_lshift_def split: if_splits sum.splits)
  then show ?case by (rule Cons.IH)
qed

lemma compress_int32_array_raises:
  assumes "es \<noteq> []"
  shows "\<exists>err. compress_sparse_registers (Int32Array es) b rbits = Inl err"
proof (cases "compress_loop rbits (b + rbits) (rows (Int32Array es)) (PyInt 0, 0)")
  case (Inl err)
  then show ?thesis
    by (simp add: compress_sparse_registers_def)
next
  case (Inr st)
  obtain bs t' where st: "st = (bs, t')" by (cases st)
  from assms obtain x xs where es: "es = x # xs" by (cases es) auto
  obtain idx rho where x: "x = (idx, rho)" by (cases x)
  from Inr obtain a' where
    "compress_loop rbits (b + rbits) (map (\<lambda>(idx, rho). (NpInt idx, NpInt rho)) xs)
       (NpInt a', 0 + (b + rbits)) = Inr (bs, t')"
    unfolding es x st
    by (auto simp: bindE_def py_lshift_def in_int32_def split: if_splits sum.splits)
  then obtain c where "bs = NpInt c"
    using compress_loop_numpy by blast
  with Inr st show ?thesis
    by (simp add: compress_sparse_registers_def)
qed

lemma compress_returns_pairs:
  assumes "compress_sparse_registers E b rbits = Inr d"
  shows "E = PyPairs (entries_of E) \<or> (entries_of E = [] \<and> d = [])"
proof (cases E)
  case (PyPairs es)
  then show ?thesis by simp
next
  case (Int32Array es)
  show ?thesis
  proof (cases "es = []")
    case True
    with assms Int32Array show ?thesis
      by (simp add: compress_sparse_registers_def)
  next
    case False
    then obtain err where "compress_sparse_registers (Int32Array es) b rbits = Inl err"
      using compress_int32_array_raises by blast
    with assms Int32Array show ?thesis by simp
  qed
qed

subsection \<open>Round trip on sequences of Python ints\<close>

text \<open>
  For in-range entries given as Python ints and field widths of at most 31 bits, the
  decoder returns the entries followed by one \<open>(0, 0)\<close> for every whole slot that fits
  into the padding bits of the last byte.
\<close>

lemma in_range_fits:
  assumes "\<forall>(idx, rho) \<in> set es. (0 :: int) \<le> idx \<and> idx < 2 ^ b \<and> (0 :: int) \<le> rho \<and> rho < 2 ^ r"
    and "x \<in> set es"
  shows "take_bit b (fst x) = fst x \<and> take_bit r (snd x) = snd x"
  using assms by (cases x) (auto simp: fits_iff)

lemma sparse_roundtrip_python_ints:
  assumes "0 \<le> b" and "b \<le> 31" and "0 \<le> rbits" and "rbits \<le> 31" and "1 \<le> b + rbits"
    and "\<forall>(idx, rho) \<in> set es. 0 \<le> idx \<and> idx < 2 ^ nat b \<and> 0 \<le> rho \<and> rho < 2 ^ nat rbits"
  shows "\<exists>d. compress_sparse_registers (PyPairs es) b rbits = Inr d \<and>
      int (length d) = (int (length es) * (b + rbits) + 7) div 8 \<and>
      decompress_sparse_registers d b rbits =
        Inr (es @ replicate (nat ((int (length d) * 8) div (b + rbits)) - length es) (0, 0))"
proof -
  let ?b = "nat b" and ?r = "nat rbits"
  have b: "b = int ?b" and r: "rbits = int ?r"
    using assms(1,3) by simp_all
  have w: "1 \<le> ?b + ?r" "?b \<le> 31" "?r \<le> 31"
    using assms(1-5) by simp_all
  have fits: "\<And>x. x \<in> set es \<Longrightarrow> take_bit ?b (fst x) = fst x \<and> take_bit ?r (snd x) = snd x"
    using in_range_fits [OF assms(6)] .
  let ?d = "to_bytes_le ((length es * (?b + ?r) + 7) div 8) (accum ?r (?b + ?r) 0 es)"
  have c: "compress_sparse_registers (PyPairs es) (int ?b) (int ?r) = Inr ?d"
    by (rule sparse_roundtrip_pairs(1) [OF w fits])
  have dd: "decompress_sparse_registers ?d (int ?b) (int ?r) =
      Inr (es @ replicate ((length ?d * 8) div (?b + ?r) - length es) (0, 0))"
    by (rule sparse_roundtrip_pairs(2) [OF w fits])
  have e: "b + rbits = int (?b + ?r)"
    using assms(1,3) by simp
  have len: "int (length ?d) = (int (length es) * (b + rbits) + 7) div 8"
    unfolding e by (simp add: zdiv_int)
  have "(int (length ?d) * 8) div (b + rbits) = int ((length ?d * 8) div (?b + ?r))"
    unfolding e by (simp add: zdiv_int)
  then have n: "nat ((int (length ?d) * 8) div (b + rbits)) = (length ?d * 8) div (?b + ?r)"
    by (simp only: nat_int)
  from c have c': "compress_sparse_registers (PyPairs es) b rbits = Inr ?d"
    using b r by simp
  from dd have dd': "decompress_sparse_registers ?d b rbits =
      Inr (es @ replicate (nat ((int (length ?d) * 8) div (b + rbits)) - length es) (0, 0))"
    unfolding n using b r by simp
  from c' len dd' show ?thesis by blast
qed


lemma sparse_roundtrip_unambiguous:
  assumes "0 \<le> b" and "b \<le> 31" and "0 \<le> rbits" and "rbits \<le> 31" and "1 \<le> b + rbits"
    and "\<forall>(idx, rho) \<in> set es. 0 \<le> idx \<and> idx < 2 ^ nat b \<and> 0 \<le> rho \<and> rho < 2 ^ nat rbits"
    and "(8 * ((int (length es) * (b + rbits) + 7) div 8)) div (b + rbits) = int (length es)"
  shows "bindE (compress_sparse_registers (PyPairs es) b rbits)
           (\<lambda>d. decompress_sparse_registers d b rbits) = Inr es"
proof -
  from sparse_roundtrip_python_ints [OF assms(1-6)] obtain d where
    c: "compress_sparse_registers (PyPairs es) b rbits = Inr d" and
    len: "int (length d) = (int (length es) * (b + rbits) + 7) div 8" and
    dd: "decompress_sparse_registers d b rbits =
      Inr (es @ replicate (nat ((int (length d) * 8) div (b + rbits)) - length es) (0, 0))"
    by blast
  have "(int (length d) * 8) div (b + rbits) = int (length es)"
    using assms(7) by (simp add: len mult.commute)
  with c dd show ?thesis by simp
qed

text \<open>
  C5. The sparse round trip fails on the declared argument type: for the \<^verbatim>\<open>int32\<close>
  array \<open>[[0, 5], [1, 10]]\<close> with \<open>b = 4\<close>, \<open>rbits = 6\<close> (in range, and without padding
  ambiguity: 3 bytes hold 2 slots of 10 bits) \<open>compress_sparse_registers\<close> raises
  \<^verbatim>\<open>AttributeError\<close> and nothing is decompressed. On the same entries given as Python
  ints the round trip holds (\<open>sparse_roundtrip_unambiguous\<close>).
\<close>

theorem sparse_roundtrip_fails_on_int32_array:
  "(8 * ((int (length [(0, 5), (1, 10 :: int)]) * (4 + 6) + 7) div 8)) div (4 + 6) =
     int (length [(0, 5), (1, 10 :: int)]) \<and>
   bindE (compress_sparse_registers (Int32Array [(0, 5), (1, 10)]) 4 6)
     (\<lambda>d. decompress_sparse_registers d 4 6) =
     Inl (AttributeError ''numpy.int32 object has no attribute to_bytes'')"
  by (simp add: compress_sparse_registers_def py_lshift_def in_int32_def wrap32_def)


text \<open>
  C6, as the code has it. For field widths \<open>0 \<le> b \<le> 31\<close>, \<open>0 \<le> rbits \<le> 31\<close> with
  \<open>b + rbits \<ge> 1\<close>: \<open>decompress_sparse_registers\<close> returns, for every byte string,
  exactly \<open>(len(data) * 8) // (b + rbits)\<close> entries; and for in-range entries \<open>E\<close> given
  as Python ints whose \<open>ceil(len(E) * (b + rbits) / 8)\<close> output bytes hold exactly one
  slot more than \<open>E\<close> has entries, \<open>compress_sparse_registers\<close> returns bytes and
  decompressing them gives \<open>E\<close> followed by one \<open>(0, 0)\<close> entry.
\<close>

theorem sparse_padding_decoding:
  assumes "0 \<le> b" and "b \<le> 31" and "0 \<le> rbits" and "rbits \<le> 31" and "1 \<le> b + rbits"
  shows "(\<exists>es. decompress_sparse_registers data b rbits = Inr es \<and>
            int (length es) = (int (length data) * 8) div (b + rbits)) \<and>
         ((\<forall>(idx, rho) \<in> set E.
              0 \<le> idx \<and> idx < 2 ^ nat b \<and> 0 \<le> rho \<and> rho < 2 ^ nat rbits) \<longrightarrow>
          (8 * ((int (length E) * (b + rbits) + 7) div 8)) div (b + rbits) = int (length E) + 1 \<longrightarrow>
          bindE (compress_sparse_registers (PyPairs E) b rbits)
            (\<lambda>d. decompress_sparse_registers d b rbits) = Inr (E @ [(0, 0)]))"
proof (intro conjI impI)
  let ?b = "nat b" and ?r = "nat rbits"
  have b: "int ?b = b" and r: "int ?r = rbits"
    using assms(1,3) by simp_all
  have w: "1 \<le> ?b + ?r" "?b \<le> 31" "?r \<le> 31"
    using assms by simp_all
  have e: "b + rbits = int (?b + ?r)"
    using assms(1,3) by simp
  have "decompress_sparse_registers data (int ?b) (int ?r) =
      Inr (map (decode_slot ?b ?r (from_bytes data)) [0..<(length data * 8) div (?b + ?r)])"
    by (rule decompress_slots [OF w])
  moreover have "int ((length data * 8) div (?b + ?r)) = (int (length data) * 8) div (b + rbits)"
    unfolding e by (simp add: zdiv_int)
  ultimately show "\<exists>es. decompress_sparse_registers data b rbits = Inr es \<and>
      int (length es) = (int (length data) * 8) div (b + rbits)"
    unfolding b r by simp
next
  assume range: "\<forall>(idx, rho) \<in> set E.
      0 \<le> idx \<and> idx < 2 ^ nat b \<and> 0 \<le> rho \<and> rho < 2 ^ nat rbits"
    and slots: "(8 * ((int (length E) * (b + rbits) + 7) div 8)) div (b + rbits) =
      int (length E) + 1"
  from sparse_roundtrip_python_ints [OF assms range] obtain d where
    c: "compress_sparse_registers (PyPairs E) b rbits = Inr d" and
    len: "int (length d) = (int (length E) * (b + rbits) + 7) div 8" and
    dd: "decompress_sparse_registers d b rbits =
      Inr (E @ replicate (nat ((int (length d) * 8) div (b + rbits)) - length E) (0, 0))"
    by blast
  have "(int (length d) * 8) div (b + rbits) = int (length E) + 1"
    using slots by (simp add: len mult.commute)
  moreover have "nat (int (length E) + 1) - length E = 1"
    by linarith
  ultimately show "bindE (compress_sparse_registers (PyPairs E) b rbits)
      (\<lambda>d. decompress_sparse_registers d b rbits) = Inr (E @ [(0, 0)])"
    using c dd by simp
qed

theorem sparse_padding_decoding_witness:
  "(0 :: int) \<le> 2 \<and> (2 :: int) \<le> 31 \<and> (1 :: int) \<le> 2 + 2 \<and>
   decompress_sparse_registers [0x05, 0x28, 0x01] 2 2 =
     Inr [(1, 1), (0, 0), (2, 0), (0, 2), (0, 1), (0, 0)] \<and>
   int (length [(1, 1), (0, 0), (2, 0), (0, 2), (0, 1), (0 :: int, 0 :: int)]) =
     (int (length [0x05, 0x28, 0x01 :: byte]) * 8) div (2 + 2) \<and>
   (0 :: int) \<le> 1 \<and> (1 :: int) < 2 ^ nat 2 \<and>
   (8 * ((int (length [(1 :: int, 1 :: int)]) * (2 + 2) + 7) div 8)) div (2 + 2) =
     int (length [(1 :: int, 1 :: int)]) + 1 \<and>
   compress_sparse_registers (PyPairs [(1, 1)]) 2 2 = Inr [0x05] \<and>
   decompress_sparse_registers [0x05] 2 2 = Inr [(1, 1), (0, 0)]"
proof -
  have c: "compress_sparse_registers (PyPairs [(1, 1)]) 2 2 = Inr [0x05]"
    by (simp add: compress_sparse_registers_def py_lshift_def)
  have d: "decompress_sparse_registers [0x05, 0x28, 0x01] 2 2 =
     Inr [(1, 1), (0, 0), (2, 0), (0, 2), (0, 1), (0, 0)]"
    by (simp add: decompress_sparse_registers_def py_lshift_def store_int32_def in_int32_def
        upt_rec)
  from sparse_padding_decoding [of 2 2 "[0x05, 0x28, 0x01]" "[(1, 1)]"]
  have "bindE (compress_sparse_registers (PyPairs [(1, 1)]) 2 2)
      (\<lambda>d. decompress_sparse_registers d 2 2) = Inr [(1, 1), (0, 0)]"
    by simp
  with c have "decompress_sparse_registers [0x05] 2 2 = Inr [(1, 1), (0, 0)]"
    by simp
  with c d show ?thesis by simp
qed

text \<open>
  C6, as the claim states it, fails: the decoder does not always return the inferred
  number of entries. Five bytes at \<open>b = 32\<close>, \<open>rbits = 6\<close> hold one slot, but its index
  \<open>2^31\<close> does not fit the \<^verbatim>\<open>int32\<close> result array and the store raises; and for
  \<open>b + rbits = 0\<close> the division that infers the count raises.
\<close>

theorem sparse_padding_decoding_counterexample:
  "(int (length [0, 0, 0, 0, 0x20 :: byte]) * 8) div (32 + 6) = 1 \<and>
   decompress_sparse_registers [0, 0, 0, 0, 0x20] 32 6 =
     Inl (OverflowError ''Python integer out of bounds for int32'') \<and>
   decompress_sparse_registers [0x01] 0 0 =
     Inl (ZeroDivisionError ''integer division or modulo by zero'')"
  by (simp add: decompress_sparse_registers_def py_lshift_def store_int32_def in_int32_def
      upt_rec)


subsection \<open>Out-of-range fields\<close>

text \<open>
  \<open>compress_sparse_registers\<close> has no range check. The mask in
  \<^verbatim>\<open>rho & ((1 << rbits) - 1)\<close> keeps the low \<open>rbits\<close> bits of \<open>rho\<close>, so the bytes depend
  on \<open>rho\<close> only through \<open>rho mod 2^rbits\<close>. The index is shifted without a mask: its bits
  from position \<open>b\<close> upwards land in the field of the next entry.
\<close>

lemma entry_field_mod: "entry_field r (idx, rho mod 2 ^ r) = entry_field r (idx, rho)"
  by (simp add: entry_field_def flip: take_bit_eq_mod)

lemma accum_rho_mod:
  "accum r e t (map (\<lambda>(idx, rho). (idx, rho mod 2 ^ r)) es) = accum r e t es"
proof (induction es arbitrary: t)
  case Nil
  show ?case by simp
next
  case (Cons x es)
  obtain idx rho where x: "x = (idx, rho)" by (cases x)
  show ?case
    by (simp add: x Cons.IH entry_field_mod)
qed

lemma accum_append:
  "accum r e t (xs @ ys) = accum r e t xs OR accum r e (t + length xs * e) ys"
proof (induction xs arbitrary: t)
  case Nil
  show ?case by simp
next
  case (Cons x xs)
  show ?case
    by (simp add: Cons.IH or.assoc algebra_simps)
qed

lemma entry_field_spill:
  "entry_field r (idx, rho) OR push_bit (b + r) (entry_field r (idx', rho')) =
   entry_field r (idx mod 2 ^ b, rho) OR
   push_bit (b + r) (entry_field r
     (idx' OR (idx div 2 ^ b) div 2 ^ r, rho' OR (idx div 2 ^ b) mod 2 ^ r))"
  unfolding entry_field_def fst_conv snd_conv
  by (rule bit_eqI)
    (auto simp: bit_simps simp flip: take_bit_eq_mod drop_bit_eq_div)

lemma accum_spill:
  "accum r (b + r) t ((idx, rho) # (idx', rho') # post) =
   accum r (b + r) t ((idx mod 2 ^ b, rho) #
     (idx' OR (idx div 2 ^ b) div 2 ^ r, rho' OR (idx div 2 ^ b) mod 2 ^ r) # post)"
proof -
  have "push_bit t (entry_field r (idx, rho)) OR
        push_bit (t + (b + r)) (entry_field r (idx', rho')) =
      push_bit t (entry_field r (idx, rho) OR push_bit (b + r) (entry_field r (idx', rho')))"
    by (simp add: push_bit_or push_bit_push_bit)
  also have "\<dots> = push_bit t (entry_field r (idx mod 2 ^ b, rho) OR
      push_bit (b + r) (entry_field r
        (idx' OR (idx div 2 ^ b) div 2 ^ r, rho' OR (idx div 2 ^ b) mod 2 ^ r)))"
    by (rule arg_cong [OF entry_field_spill])
  also have "\<dots> = push_bit t (entry_field r (idx mod 2 ^ b, rho)) OR
      push_bit (t + (b + r)) (entry_field r
        (idx' OR (idx div 2 ^ b) div 2 ^ r, rho' OR (idx div 2 ^ b) mod 2 ^ r))"
    by (simp add: push_bit_or push_bit_push_bit)
  finally show ?thesis
    by (simp flip: or.assoc)
qed

lemma compress_rho_mod:
  "compress_sparse_registers
     (PyPairs (map (\<lambda>(idx, rho). (idx, rho mod 2 ^ r)) es)) (int b) (int r) =
   compress_sparse_registers (PyPairs es) (int b) (int r)"
  by (simp add: compress_pairs accum_rho_mod)

lemma compress_spill:
  "compress_sparse_registers
     (PyPairs (pre @ (idx, rho) # (idx', rho') # post)) (int b) (int r) =
   compress_sparse_registers
     (PyPairs (pre @ (idx mod 2 ^ b, rho) #
        (idx' OR (idx div 2 ^ b) div 2 ^ r, rho' OR (idx div 2 ^ b) mod 2 ^ r) # post))
     (int b) (int r)"
proof -
  have "accum r (b + r) 0 (pre @ (idx, rho) # (idx', rho') # post) =
        accum r (b + r) 0 (pre @ (idx mod 2 ^ b, rho) #
          (idx' OR (idx div 2 ^ b) div 2 ^ r, rho' OR (idx div 2 ^ b) mod 2 ^ r) # post)"
    unfolding accum_append by (rule arg_cong [OF accum_spill])
  then show ?thesis
    by (simp add: compress_pairs)
qed

text \<open>
  An index that pushes the accumulator beyond the output bytes is caught by
  \<^verbatim>\<open>to_bytes\<close>: for a single entry the output is \<open>ceil((b + rbits) / 8)\<close> bytes long.
\<close>

lemma compress_single_too_big:
  assumes "2 ^ (8 * ((b + r + 7) div 8) - r) \<le> idx"
  shows "compress_sparse_registers (PyPairs [(idx, rho)]) (int b) (int r) =
    Inl (OverflowError ''int too big to convert'')"
proof -
  let ?nb = "(b + r + 7) div 8"
  let ?acc = "push_bit r idx OR take_bit r rho"
  have "(0 :: int) < 2 ^ (8 * ?nb - r)" by simp
  with assms have pos: "0 \<le> idx" by linarith
  have "r \<le> 8 * ?nb" by arith
  then have "(2 :: int) ^ (8 * ?nb) = 2 ^ (8 * ?nb - r) * 2 ^ r"
    by (simp flip: power_add)
  also have "\<dots> \<le> idx * 2 ^ r"
    using assms by (intro mult_right_mono) simp_all
  also have "\<dots> = push_bit r idx"
    by (simp add: push_bit_eq_mult)
  also have "\<dots> \<le> ?acc"
    by (rule or_greater_eq) simp
  finally have big: "2 ^ (8 * ?nb) \<le> ?acc" .
  have nonneg: "\<not> ?acc < 0"
    using pos by simp
  have nb: "(int (b + r) + 7) div 8 = int ?nb"
    by (simp add: zdiv_int)
  have "compress_sparse_registers (PyPairs [(idx, rho)]) (int b) (int r) =
      to_bytes (PyInt ?acc) (int ?nb)"
    unfolding compress_pairs by (simp add: entry_field_def nb del: of_nat_add)
  also have "\<dots> = Inl (OverflowError ''int too big to convert'')"
    using big nonneg by simp
  finally show ?thesis .
qed


text \<open>
  C8, as the code has it. For \<open>b, rbits \<ge> 0\<close> and entries given as Python ints:
  an out-of-range \<open>rho\<close> is reduced to its low \<open>rbits\<close> bits and changes nothing else (the
  result is that of the entries with every \<open>rho\<close> replaced by \<open>rho mod 2^rbits\<close>);
  the excess \<open>idx // 2^b\<close> of the index of an entry that has a successor is OR-ed into
  the successor's field (the result is that of the entries with \<open>idx mod 2^b\<close> in its
  place, the successor's index OR-ed with \<open>excess // 2^rbits\<close> and the successor's
  \<open>rho\<close> OR-ed with \<open>excess mod 2^rbits\<close>); and a single entry whose index is at
  least \<open>2^(8 * ceil((b + rbits) / 8) - rbits)\<close> does not fit the output bytes and
  raises \<^verbatim>\<open>OverflowError\<close>.
\<close>

theorem compress_out_of_range:
  assumes "0 \<le> b" and "0 \<le> rbits"
  shows "compress_sparse_registers
           (PyPairs (map (\<lambda>(idx, rho). (idx, rho mod 2 ^ nat rbits)) es)) b rbits =
         compress_sparse_registers (PyPairs es) b rbits \<and>
         compress_sparse_registers
           (PyPairs (pre @ (idx, rho) # (idx', rho') # post)) b rbits =
         compress_sparse_registers
           (PyPairs (pre @ (idx mod 2 ^ nat b, rho) #
              (idx' OR (idx div 2 ^ nat b) div 2 ^ nat rbits,
               rho' OR (idx div 2 ^ nat b) mod 2 ^ nat rbits) # post)) b rbits \<and>
         (2 ^ (8 * nat ((b + rbits + 7) div 8) - nat rbits) \<le> idx0 \<longrightarrow>
          compress_sparse_registers (PyPairs [(idx0, rho0)]) b rbits =
            Inl (OverflowError ''int too big to convert''))"
proof -
  have ib: "int (nat b) = b" and ir: "int (nat rbits) = rbits"
    using assms by simp_all
  have "nat ((b + rbits + 7) div 8) = (nat b + nat rbits + 7) div 8"
    using assms by (simp add: nat_div_distrib nat_add_distrib)
  then have "2 ^ (8 * nat ((b + rbits + 7) div 8) - nat rbits) \<le> idx0 \<Longrightarrow>
      compress_sparse_registers (PyPairs [(idx0, rho0)]) (int (nat b)) (int (nat rbits)) =
        Inl (OverflowError ''int too big to convert'')"
    by (intro compress_single_too_big) simp
  with ib ir compress_rho_mod [of "nat rbits" es "nat b"]
    compress_spill [of pre idx rho idx' rho' post "nat b" "nat rbits"]
  show ?thesis by simp
qed

theorem compress_out_of_range_witness:
  "(0 :: int) \<le> 4 \<and> (0 :: int) \<le> 6 \<and>
   compress_sparse_registers (PyPairs [(0, 64), (1, 10)]) 4 6 =
     compress_sparse_registers (PyPairs [(0, 0), (1, 10)]) 4 6 \<and>
   compress_sparse_registers (PyPairs [(17, 5), (2, 10)]) 4 6 =
     compress_sparse_registers (PyPairs [(1, 5), (2, 11)]) 4 6 \<and>
   (2 :: int) ^ (8 * nat ((4 + 6 + 7) div 8) - nat 6) \<le> 1024 \<and>
   compress_sparse_registers (PyPairs [(1024, 3)]) 4 6 =
     Inl (OverflowError ''int too big to convert'')"
  using compress_out_of_range [of 4 6 "[(0, 64), (1, 10)]" "[]" 17 5 2 10 "[]" 1024 3]
  by simp

text \<open>
  C8, as the claim states it, fails: the out-of-range index \<open>4\<close> (with \<open>b = 2\<close>) of a last
  entry makes the call raise \<^verbatim>\<open>OverflowError\<close>, and the out-of-range \<open>rho = 64\<close> (with
  \<open>rbits = 6\<close>) corrupts no adjacent field: the index next to it and the following
  entry \<open>(1, 10)\<close> are decoded unchanged, only \<open>rho\<close> itself is read back as \<open>0\<close>.
\<close>

theorem compress_out_of_range_counterexample:
  "compress_sparse_registers (PyPairs [(4, 0)]) 2 6 =
     Inl (OverflowError ''int too big to convert'') \<and>
   compress_sparse_registers (PyPairs [(0, 64), (1, 10)]) 4 6 = Inr [0x00, 0x28, 0x01] \<and>
   decompress_sparse_registers [0x00, 0x28, 0x01] 4 6 = Inr [(0, 0), (1, 10)]"
proof (intro conjI)
  show "compress_sparse_registers (PyPairs [(4, 0)]) 2 6 =
      Inl (OverflowError ''int too big to convert'')"
    by (simp add: compress_sparse_registers_def py_lshift_def)
  show "compress_sparse_registers (PyPairs [(0, 64), (1, 10)]) 4 6 = Inr [0x00, 0x28, 0x01]"
    by (simp add: compress_sparse_registers_def py_lshift_def eval_nat_numeral)
  show "decompress_sparse_registers [0x00, 0x28, 0x01] 4 6 = Inr [(0, 0), (1, 10)]"
    by (simp add: decompress_sparse_registers_def py_lshift_def store_int32_def in_int32_def
        upt_rec)
qed

end
